theory Spec2Isabelle
  imports Main "HOL-Library.Signed_Division"
begin

section \<open>Errors\<close>

text \<open>The values of \<open>errno\<close> that the code tells apart; any other value is
  \<open>OtherErrno\<close> with its number.\<close>

datatype errno = EAGAIN | EWOULDBLOCK | ECONNRESET | OtherErrno nat

text \<open>
  Every C++ exception thrown by the modelled code, and every error value handed to a
  rejection callback, is a value of \<open>error\<close>: the three standard exception classes
  with their message, \<open>std::runtime_error(strerror(errno))\<close>, and
  \<open>Net::Error::system(message)\<close>, which carries the message and \<open>errno\<close>. A function
  that may throw returns \<open>error + 'a\<close> with \<open>Inl\<close> for the exception, or an
  \<open>error option\<close> beside the state it leaves.
\<close>

datatype error =
    RuntimeError string
  | LogicError string
  | OutOfRange string
  | StrError errno
  | SystemError string errno


section \<open>Router (src/server/router.cc)\<close>

subsection \<open>Fragments\<close>

datatype Flag = Fixed | Parameter | Optional | Splat

record Fragment =
  frag_flags :: "Flag set"
  frag_value :: string

definition hasFlag :: "Flag set \<Rightarrow> Flag \<Rightarrow> bool" where
  "hasFlag fl f = (f \<in> fl)"

definition setFlag :: "Flag set \<Rightarrow> Flag \<Rightarrow> Flag set" where
  "setFlag fl f = insert f fl"

text \<open>\<open>value[0]\<close> on a \<open>std::string\<close>: the terminating NUL when the string is empty.\<close>

fun char0 :: "string \<Rightarrow> char" where
  "char0 [] = CHR 0x00"
| "char0 (c # cs) = c"

text \<open>\<open>std::string::find(c)\<close>: the first position of \<open>c\<close>, \<open>None\<close> for \<open>npos\<close>.\<close>

fun str_find :: "char \<Rightarrow> string \<Rightarrow> nat option" where
  "str_find c [] = None"
| "str_find c (x # xs) = (if x = c then Some 0 else map_option Suc (str_find c xs))"

text \<open>The lambda \<open>check\<close> of \<open>checkInvariant\<close>: true when it throws, that is when every
  flag of the list is set.\<close>

definition check :: "Flag set \<Rightarrow> Flag list \<Rightarrow> bool" where
  "check fl exclusiveFlags = list_all (hasFlag fl) exclusiveFlags"

definition checkInvariant :: "Fragment \<Rightarrow> error + Fragment" where
  "checkInvariant fr =
     (if check (frag_flags fr) [Fixed, Optional]
       \<or> check (frag_flags fr) [Fixed, Parameter]
       \<or> check (frag_flags fr) [Splat, Fixed]
       \<or> check (frag_flags fr) [Splat, Optional]
       \<or> check (frag_flags fr) [Splat, Parameter]
      then Inl (LogicError
        (''Invariant violated: invalid combination of flags for fragment '' @ frag_value fr))
      else Inr fr)"

text \<open>The first \<open>if\<close> chain of \<open>Fragment::init\<close>: the kind of the fragment.\<close>

definition init_kind :: "string \<Rightarrow> error + Flag set" where
  "init_kind v =
     (if char0 v = CHR '':'' then Inr (setFlag {} Parameter)
      else if char0 v = CHR ''*'' then
        (if length v > 1 then Inl (RuntimeError ''Invalid splat parameter'')
         else Inr (setFlag {} Splat))
      else Inr (setFlag {} Fixed))"

definition Fragment_init :: "string \<Rightarrow> error + Fragment" where
  "Fragment_init v =
     (case init_kind v of
        Inl e \<Rightarrow> Inl e
      | Inr fl \<Rightarrow>
         (case str_find CHR ''?'' v of
            Some pos \<Rightarrow>
              if char0 v \<noteq> CHR '':'' then
                Inl (RuntimeError ''Only optional parameters are currently supported'')
              else if pos \<noteq> length v - 1 then
                Inl (RuntimeError ''? should be at the end of the string'')
              else checkInvariant
                     \<lparr>frag_flags = setFlag fl Optional, frag_value = take pos v\<rparr>
          | None \<Rightarrow> checkInvariant \<lparr>frag_flags = fl, frag_value = v\<rparr>))"

text \<open>The constructor \<open>Fragment(std::string value)\<close>.\<close>

definition Fragment_new :: "string \<Rightarrow> error + Fragment" where
  "Fragment_new v =
     (if v = [] then Inl (RuntimeError ''Invalid empty fragment'') else Fragment_init v)"

definition Fragment_match_raw :: "Fragment \<Rightarrow> string \<Rightarrow> bool" where
  "Fragment_match_raw fr raw =
     (if hasFlag (frag_flags fr) Fixed then raw = frag_value fr
      else if hasFlag (frag_flags fr) Parameter \<or> hasFlag (frag_flags fr) Splat then True
      else False)"

definition Fragment_match :: "Fragment \<Rightarrow> Fragment \<Rightarrow> bool" where
  "Fragment_match fr other = Fragment_match_raw fr (frag_value other)"

definition isParameter :: "Fragment \<Rightarrow> bool" where
  "isParameter fr = hasFlag (frag_flags fr) Parameter"

definition isOptional :: "Fragment \<Rightarrow> bool" where
  "isOptional fr = (isParameter fr \<and> hasFlag (frag_flags fr) Optional)"

definition isSplat :: "Fragment \<Rightarrow> bool" where
  "isSplat fr = hasFlag (frag_flags fr) Splat"

subsection \<open>Splitting a URL\<close>

text \<open>
  The strings that successive calls \<open>std::getline(iss, p, d)\<close> produce on a stream: a
  token ends at each delimiter, and the characters after the last delimiter are a token
  only when there is at least one (at end of input \<open>getline\<close> extracts nothing and fails,
  which ends the \<open>while\<close>). \<open>cur\<close> holds the characters extracted so far.
\<close>

fun getlines :: "char \<Rightarrow> string \<Rightarrow> string \<Rightarrow> string list" where
  "getlines d cur [] = (if cur = [] then [] else [cur])"
| "getlines d cur (c # cs) =
     (if c = d then cur # getlines d [] cs else getlines d (cur @ [c]) cs)"

text \<open>The body of the \<open>while\<close> of \<open>Fragment::fromUrl\<close>, over the tokens still to come.\<close>

fun fromUrl_loop :: "string list \<Rightarrow> Fragment list \<Rightarrow> error + Fragment list" where
  "fromUrl_loop [] fragments = Inr fragments"
| "fromUrl_loop (p # ps) fragments =
     (if p = [] then fromUrl_loop ps fragments
      else (case Fragment_new p of
              Inl e \<Rightarrow> Inl e
            | Inr f \<Rightarrow> fromUrl_loop ps (fragments @ [f])))"

definition fromUrl :: "string \<Rightarrow> error + Fragment list" where
  "fromUrl url = fromUrl_loop (getlines CHR ''/'' [] url) []"

subsection \<open>Matching a route\<close>

datatype TypedParam = TypedParam (tp_name: string) (tp_value: string)

type_synonym match_result = "bool \<times> TypedParam list \<times> TypedParam list"

definition UNMATCH :: match_result where
  "UNMATCH = (False, [], [])"

text \<open>
  The \<open>for\<close> loop of \<open>Route::match\<close>. The index \<open>i\<close> runs over the pattern's fragments
  and reads the request's fragment at the same index, so the model walks both lists in
  step: the second list is empty exactly when \<open>i >= reqFragments.size()\<close>.
\<close>

fun match_loop ::
  "Fragment list \<Rightarrow> Fragment list \<Rightarrow> TypedParam list \<Rightarrow> TypedParam list \<Rightarrow> match_result"
where
  "match_loop [] rs params splats = (True, params, splats)"
| "match_loop (fragment # fs) [] params splats =
     (if isOptional fragment then match_loop fs [] params splats else UNMATCH)"
| "match_loop (fragment # fs) (reqFragment # rs) params splats =
     (if \<not> Fragment_match fragment reqFragment then UNMATCH
      else if isParameter fragment then
        match_loop fs rs
          (params @ [TypedParam (frag_value fragment) (frag_value reqFragment)]) splats
      else if isSplat fragment then
        match_loop fs rs params
          (splats @ [TypedParam (frag_value reqFragment) (frag_value reqFragment)])
      else match_loop fs rs params splats)"

text \<open>\<open>Route::match(const std::string&)\<close> on the fragments of the route. Splitting the
  request with \<open>Fragment::fromUrl\<close> may throw; the exception leaves \<open>match\<close>.\<close>

definition Route_match :: "Fragment list \<Rightarrow> string \<Rightarrow> error + match_result" where
  "Route_match fragments req =
     (case fromUrl req of
        Inl e \<Rightarrow> Inl e
      | Inr reqFragments \<Rightarrow>
          if length reqFragments > length fragments then Inr UNMATCH
          else Inr (match_loop fragments reqFragments [] []))"

subsection \<open>Routed requests\<close>

datatype Method = Options | Get | Post | Head | Put | Delete | Trace | Connect

record HttpRequest =
  http_method :: Method
  resource :: string

text \<open>\<open>Rest::Request\<close> derives from \<open>Http::Request\<close> and adds the two captured lists.\<close>

record Request = HttpRequest +
  req_params :: "TypedParam list"
  req_splats :: "TypedParam list"

definition Request_new :: "HttpRequest \<Rightarrow> TypedParam list \<Rightarrow> TypedParam list \<Rightarrow> Request" where
  "Request_new request params splats =
     \<lparr>http_method = http_method request, resource = resource request,
      req_params = params, req_splats = splats\<rparr>"

definition hasParam :: "Request \<Rightarrow> string \<Rightarrow> bool" where
  "hasParam r name = (find (\<lambda>param. tp_name param = name) (req_params r) \<noteq> None)"

definition param :: "Request \<Rightarrow> string \<Rightarrow> error + TypedParam" where
  "param r name =
     (case find (\<lambda>param. tp_name param = name) (req_params r) of
        None \<Rightarrow> Inl (RuntimeError ''Unknown parameter'')
      | Some p \<Rightarrow> Inr p)"

definition splatAt :: "Request \<Rightarrow> nat \<Rightarrow> error + TypedParam" where
  "splatAt r index =
     (if index \<ge> length (req_splats r) then Inl (OutOfRange ''Request splat index out of range'')
      else Inr (req_splats r ! index))"

definition splat :: "Request \<Rightarrow> TypedParam list" where
  "splat r = req_splats r"

subsection \<open>Routes and dispatch\<close>

text \<open>The handler of a route is opaque: \<open>'h\<close> stands for \<open>Route::Handler\<close>.\<close>

record 'h Route =
  route_resource :: string
  route_method :: Method
  route_handler :: 'h
  route_fragments :: "Fragment list"

text \<open>
  Modelled from the spec: the constructor \<open>Route(resource, method, handler)\<close> is declared
  in router.h, which is not among the sources. The spec's compilation rule (split the
  pattern on \<open>/\<close>, discard empty segments, one Fragment per segment) is what
  \<open>Fragment::fromUrl\<close> does, so the constructor stores \<open>fromUrl resource\<close>.
\<close>

definition Route_new :: "string \<Rightarrow> Method \<Rightarrow> 'h \<Rightarrow> error + 'h Route" where
  "Route_new res m h =
     (case fromUrl res of
        Inl e \<Rightarrow> Inl e
      | Inr fs \<Rightarrow> Inr \<lparr>route_resource = res, route_method = m, route_handler = h, route_fragments = fs\<rparr>)"

text \<open>\<open>routes\<close> is an \<open>unordered_map\<close> read with \<open>operator[]\<close> only: a method without
  an entry has the empty vector.\<close>

type_synonym 'h routes = "Method \<Rightarrow> 'h Route list"

definition addRoute :: "'h routes \<Rightarrow> Method \<Rightarrow> string \<Rightarrow> 'h \<Rightarrow> error + 'h routes" where
  "addRoute routes m res h =
     (case Route_new res m h of
        Inl e \<Rightarrow> Inl e
      | Inr route \<Rightarrow> Inr (routes(m := routes m @ [route])))"

datatype Code = Ok | Created | Not_Found

text \<open>What \<open>onRequest\<close> does with the response: it hands it to a route's handler
  together with the augmented request, or sends a reply itself.\<close>

datatype 'h dispatch =
    invokeHandler 'h Request
  | send Code string

fun onRequest_loop :: "'h Route list \<Rightarrow> HttpRequest \<Rightarrow> error + 'h dispatch" where
  "onRequest_loop [] req = Inr (send Not_Found ''Could not find a matching route'')"
| "onRequest_loop (route # r) req =
     (case Route_match (route_fragments route) (resource req) of
        Inl e \<Rightarrow> Inl e
      | Inr (match, params, splats) \<Rightarrow>
          if match then Inr (invokeHandler (route_handler route) (Request_new req params splats))
          else onRequest_loop r req)"

definition onRequest :: "'h routes \<Rightarrow> HttpRequest \<Rightarrow> error + 'h dispatch" where
  "onRequest routes req = onRequest_loop (routes (http_method req)) req"

text \<open>Whether \<open>route.match(req)\<close> returns with its first component true.\<close>

definition route_matches :: "'h Route \<Rightarrow> HttpRequest \<Rightarrow> bool" where
  "route_matches route req =
     (case Route_match (route_fragments route) (resource req) of
        Inl e \<Rightarrow> False
      | Inr (match, params, splats) \<Rightarrow> match)"

subsection \<open>Fragments written out, for concrete routes\<close>

abbreviation fixed_frag :: "string \<Rightarrow> Fragment" where
  "fixed_frag v \<equiv> \<lparr>frag_flags = {Fixed}, frag_value = v\<rparr>"

abbreviation param_frag :: "string \<Rightarrow> Fragment" where
  "param_frag v \<equiv> \<lparr>frag_flags = {Parameter}, frag_value = v\<rparr>"

abbreviation optional_frag :: "string \<Rightarrow> Fragment" where
  "optional_frag v \<equiv> \<lparr>frag_flags = {Optional, Parameter}, frag_value = v\<rparr>"

abbreviation splat_frag :: "string \<Rightarrow> Fragment" where
  "splat_frag v \<equiv> \<lparr>frag_flags = {Splat}, frag_value = v\<rparr>"

text \<open>A routing table with two GET routes that overlap, handlers numbered in the order
  of registration: what \<open>Routes::Get(router, "/value/:name", h1)\<close> followed by
  \<open>Routes::Get(router, "/:kind/*", h2)\<close> builds.\<close>

definition example_routes :: "nat routes" where
  "example_routes =
     (\<lambda>m. [])(Get :=
        [\<lparr>route_resource = ''/value/:name'', route_method = Get, route_handler = 1,
          route_fragments = [fixed_frag ''value'', param_frag '':name'']\<rparr>,
         \<lparr>route_resource = ''/:kind/*'', route_method = Get, route_handler = 2,
          route_fragments = [param_frag '':kind'', splat_frag ''*'']\<rparr>])"

section \<open>Transport (src/common/transport.cc)\<close>

subsection \<open>Data\<close>

type_synonym Fd = int

datatype NotifyOn = Read | Write | Hangup | Shutdown

datatype Mode = Level | Edge

text \<open>
  The calls on the I/O service \<open>io()\<close>. Its code (io.cc) is not among the sources: the
  model takes the service as a parameter \<open>io_throws\<close> that says, for each call, whether
  it returns (\<open>None\<close>) or throws, as the \<open>TRY(epoll_ctl(...))\<close> of os.cc can.
\<close>

datatype io_call =
    registerFd Fd "NotifyOn set" Mode
  | registerFdOneShot Fd "NotifyOn set" Mode
  | modifyFd Fd "NotifyOn set" Mode

text \<open>\<open>Async::Resolver\<close> and \<open>Async::Rejection\<close> are opaque callbacks, told apart by a
  number.\<close>

type_synonym Resolver = nat
type_synonym Rejection = nat

record Peer =
  peer_fd :: Fd

record timespec =
  tv_sec :: int
  tv_nsec :: int

record itimerspec =
  it_interval :: timespec
  it_value :: timespec

text \<open>
  Modelled from the spec: \<open>BufferHolder\<close> is declared in transport.h, which is not among
  the sources. The spec's payload is "either an owned/borrowed byte range or a file
  descriptor + offset for zero-copy transfer", and when a remainder is stashed "the
  stored payload is shifted by \<open>written\<close> bytes"; owned bytes stay owned, now by the
  pending entry, and for a file only the offset, which the write loop keeps, advances.
\<close>

datatype BufferHolder =
    Raw string bool
  | File Fd nat

fun isRaw :: "BufferHolder \<Rightarrow> bool" where
  "isRaw (Raw d owned) = True"
| "isRaw (File f n) = False"

fun size_of :: "BufferHolder \<Rightarrow> nat" where
  "size_of (Raw d owned) = length d"
| "size_of (File f n) = n"

fun detach :: "BufferHolder \<Rightarrow> nat \<Rightarrow> BufferHolder" where
  "detach (Raw d owned) offset = Raw (drop offset d) owned"
| "detach (File f n) offset = File f n"

datatype WriteStatus = FirstTry | Retry

record WriteEntry =
  write_resolve :: Resolver
  write_reject :: Rejection
  write_buffer :: BufferHolder
  write_flags :: int

text \<open>\<open>WriteEntry\<close> and \<open>TimerEntry\<close> hold the members that transport.cc reads;
  \<open>timer_value\<close> is \<open>entry.value.count()\<close>, a number of milliseconds.\<close>

record TimerEntry =
  timer_fd :: Fd
  timer_value :: int
  timer_resolve :: Resolver
  timer_reject :: Rejection
  timer_active :: bool

text \<open>
  Modelled from the spec: the members \<open>peers\<close>, \<open>toWrite\<close> and \<open>timers\<close> are declared in
  transport.h, which is not among the sources. The spec gives each as a map keyed by
  descriptor (\<open>map<Fd, Peer>\<close>, \<open>map<Fd, PendingWrite>\<close>, \<open>map<Fd, Timer>\<close>); \<open>insert\<close> on
  such a map stores nothing when the key is present, which is \<open>map_insert\<close>.
\<close>

record Transport =
  peers :: "Fd \<rightharpoonup> Peer"
  toWrite :: "Fd \<rightharpoonup> WriteEntry"
  timers :: "Fd \<rightharpoonup> TimerEntry"

text \<open>A Transport right after construction: the tables are empty.\<close>

definition Transport_new :: Transport where
  "Transport_new = \<lparr>peers = Map.empty, toWrite = Map.empty, timers = Map.empty\<rparr>"

definition map_insert :: "('k \<rightharpoonup> 'v) \<Rightarrow> 'k \<Rightarrow> 'v \<Rightarrow> ('k \<rightharpoonup> 'v)" where
  "map_insert m k v = (case m k of None \<Rightarrow> m(k \<mapsto> v) | Some old \<Rightarrow> m)"

text \<open>
  What a function of the Transport does besides changing the tables, in the order it
  does it: handler callbacks, system calls with the data they carry, calls on the I/O
  service, completion callbacks, the diagnostic stream. The handler and the completion
  callbacks are opaque: the model records that they are called and with what, not what
  they do in turn.
\<close>

datatype event =
    onInput string nat Peer
  | onConnection Peer
  | onDisconnection Peer
  | close Fd
  | cerr string
  | io io_call
  | send_bytes Fd string int
  | sendfile_bytes Fd Fd nat nat
  | delete_data string
  | timerfd_settime Fd int itimerspec
  | resolve Resolver int
  | reject Rejection error

text \<open>The events so far, the tables as they are left, and the exception, if one is
  thrown.\<close>

type_synonym outcome = "event list \<times> Transport \<times> error option"

subsection \<open>Incoming data\<close>

definition handlePeerDisconnection :: "Transport \<Rightarrow> Peer \<Rightarrow> outcome" where
  "handlePeerDisconnection t peer =
     (let fd = peer_fd peer in
      case peers t fd of
        None \<Rightarrow> ([onDisconnection peer], t, Some (RuntimeError ''Could not find peer to erase''))
      | Some p \<Rightarrow> ([onDisconnection peer, close fd], t\<lparr>peers := (peers t)(fd := None)\<rparr>, None))"

text \<open>What one call of \<open>recv\<close> returns: the bytes received (none: the peer closed), or
  \<open>-1\<close> with \<open>errno\<close>.\<close>

datatype recv_result = Received string | RecvError errno

text \<open>
  The \<open>for (;;)\<close> of \<open>handleIncoming\<close>. \<open>MaxBuffer\<close> is \<open>Const::MaxBuffer\<close>, whose value
  is not in the sources. \<open>recv_answer i\<close> is what the kernel answers to the \<open>i\<close>-th
  \<open>recv\<close> of the turn; the call asks for at most \<open>MaxBuffer - totalBytes\<close> bytes, so only
  that many are taken. \<open>buffer\<close> holds the bytes read so far in the turn, \<open>totalBytes\<close> is
  its length. The last component of the result is \<open>buffer\<close> when the loop is left.
\<close>

function handleIncoming_loop ::
  "nat \<Rightarrow> (nat \<Rightarrow> recv_result) \<Rightarrow> Transport \<Rightarrow> Peer \<Rightarrow> nat \<Rightarrow> string \<Rightarrow> outcome \<times> string"
where
  "handleIncoming_loop MaxBuffer recv_answer t peer i buffer =
     (let totalBytes = length buffer in
      case recv_answer i of
        RecvError e \<Rightarrow>
          if e = EAGAIN \<or> e = EWOULDBLOCK then
            (if totalBytes > 0 then (([onInput buffer totalBytes peer], t, None), buffer)
             else (([], t, None), buffer))
          else if e = ECONNRESET then (handlePeerDisconnection t peer, buffer)
          else (([], t, Some (StrError e)), buffer)
      | Received data \<Rightarrow>
          (let bytes = take (MaxBuffer - totalBytes) data in
           if bytes = [] then (handlePeerDisconnection t peer, buffer)
           else if length (buffer @ bytes) \<ge> MaxBuffer then
             (([cerr ''Too long packet''], t, None), buffer @ bytes)
           else handleIncoming_loop MaxBuffer recv_answer t peer (Suc i) (buffer @ bytes)))"
  by pat_completeness auto
termination
  by (relation "measure (\<lambda>(MaxBuffer, recv_answer, t, peer, i, buffer). MaxBuffer - length buffer)")
     (auto simp: min_def neq_Nil_conv split: if_splits)

declare handleIncoming_loop.simps [simp del]

definition handleIncoming ::
  "nat \<Rightarrow> (nat \<Rightarrow> recv_result) \<Rightarrow> Transport \<Rightarrow> Peer \<Rightarrow> outcome \<times> string" where
  "handleIncoming MaxBuffer recv_answer t peer =
     handleIncoming_loop MaxBuffer recv_answer t peer 0 []"

subsection \<open>Outgoing data\<close>

text \<open>What one call of \<open>send\<close> or \<open>sendfile\<close> returns: the number of bytes taken, or
  \<open>-1\<close> with \<open>errno\<close>.\<close>

datatype send_result = Written nat | SendError errno

text \<open>The lambda \<open>cleanUp\<close> of \<open>asyncWriteImpl\<close>.\<close>

definition cleanUp :: "Transport \<Rightarrow> Fd \<Rightarrow> BufferHolder \<Rightarrow> WriteStatus \<Rightarrow> event list \<times> Transport" where
  "cleanUp t fd buffer status =
     ((case buffer of
         Raw d owned \<Rightarrow> if owned then [delete_data d] else []
       | File f n \<Rightarrow> []),
      (if status = Retry then t\<lparr>toWrite := (toWrite t)(fd := None)\<rparr> else t))"

text \<open>The system call of one iteration, as an event: the bytes handed to the socket, or
  the range of the file.\<close>

fun transfer :: "Fd \<Rightarrow> int \<Rightarrow> BufferHolder \<Rightarrow> nat \<Rightarrow> nat \<Rightarrow> event" where
  "transfer fd flags (Raw d owned) totalWritten bytesWritten =
     send_bytes fd (take bytesWritten (drop totalWritten d)) flags"
| "transfer fd flags (File f n) totalWritten bytesWritten =
     sendfile_bytes fd f totalWritten bytesWritten"

text \<open>
  The \<open>for (;;)\<close> of \<open>asyncWriteImpl\<close>. The first list holds what the kernel answers to
  the successive \<open>send\<close> (or \<open>sendfile\<close>) calls; the answers not used are returned with
  the outcome. The loop has no bound of its own, so the result is \<open>None\<close> when the answers
  run out while the loop is still going. The kernel takes at most the \<open>len\<close> bytes it is
  offered. \<open>trace\<close> holds the events so far.
\<close>

fun asyncWriteImpl_loop ::
  "send_result list \<Rightarrow> (io_call \<Rightarrow> error option) \<Rightarrow> Transport \<Rightarrow> Fd \<Rightarrow> int \<Rightarrow> BufferHolder \<Rightarrow>
   Resolver \<Rightarrow> Rejection \<Rightarrow> WriteStatus \<Rightarrow> nat \<Rightarrow> event list \<Rightarrow>
   (outcome \<times> send_result list) option"
where
  "asyncWriteImpl_loop [] io_throws t fd flags buffer res rej status totalWritten trace = None"
| "asyncWriteImpl_loop (answer # answers) io_throws t fd flags buffer res rej status
     totalWritten trace =
     (let len = size_of buffer - totalWritten in
      case answer of
        SendError e \<Rightarrow>
          if e = EAGAIN \<or> e = EWOULDBLOCK then
            (let t' = (if status = FirstTry then
                         t\<lparr>toWrite := map_insert (toWrite t) fd
                             \<lparr>write_resolve = res, write_reject = rej,
                              write_buffer = detach buffer totalWritten,
                              write_flags = flags\<rparr>\<rparr>
                       else t);
                 call = modifyFd fd {Read, Write} Edge
             in Some ((trace @ [io call], t', io_throws call), answers))
          else
            (let (freed, t') = cleanUp t fd buffer status
             in Some ((trace @ freed @ [reject rej (SystemError ''Could not write data'' e)],
                       t', None), answers))
      | Written n \<Rightarrow>
          (let bytesWritten = min n len;
               sent = transfer fd flags buffer totalWritten bytesWritten;
               totalWritten' = totalWritten + bytesWritten
           in if totalWritten' = len then
                (let (freed, t') = cleanUp t fd buffer status
                 in Some ((trace @ [sent] @ freed @ [resolve res (int totalWritten')],
                           t', None), answers))
              else asyncWriteImpl_loop answers io_throws t fd flags buffer res rej status
                     totalWritten' (trace @ [sent])))"

definition asyncWriteImpl ::
  "send_result list \<Rightarrow> (io_call \<Rightarrow> error option) \<Rightarrow> Transport \<Rightarrow> Fd \<Rightarrow> int \<Rightarrow> BufferHolder \<Rightarrow>
   Resolver \<Rightarrow> Rejection \<Rightarrow> WriteStatus \<Rightarrow> (outcome \<times> send_result list) option" where
  "asyncWriteImpl answers io_throws t fd flags buffer res rej status =
     asyncWriteImpl_loop answers io_throws t fd flags buffer res rej status 0 []"

text \<open>The overload \<open>asyncWriteImpl(fd, entry, status)\<close>.\<close>

definition asyncWriteImpl_entry ::
  "send_result list \<Rightarrow> (io_call \<Rightarrow> error option) \<Rightarrow> Transport \<Rightarrow> Fd \<Rightarrow> WriteEntry \<Rightarrow>
   WriteStatus \<Rightarrow> (outcome \<times> send_result list) option" where
  "asyncWriteImpl_entry answers io_throws t fd entry status =
     asyncWriteImpl answers io_throws t fd (write_flags entry) (write_buffer entry)
       (write_resolve entry) (write_reject entry) status"

text \<open>
  \<open>handleWriteQueue\<close> drains \<open>writesQueue\<close>: the list holds the entries that \<open>popSafe\<close>
  returns, oldest first, each with its member \<open>peerFd\<close>. The call
  \<open>asyncWriteImpl(write.peerFd, write)\<close> leaves the status to its default; the spec says
  that the consumer of the queue calls the write path with status FirstTry. An exception
  ends the drain.
\<close>

fun handleWriteQueue ::
  "(Fd \<times> WriteEntry) list \<Rightarrow> send_result list \<Rightarrow> (io_call \<Rightarrow> error option) \<Rightarrow> Transport \<Rightarrow>
   event list \<Rightarrow> (outcome \<times> send_result list) option"
where
  "handleWriteQueue [] answers io_throws t trace = Some ((trace, t, None), answers)"
| "handleWriteQueue ((peerFd, write) # queue) answers io_throws t trace =
     (case asyncWriteImpl_entry answers io_throws t peerFd write FirstTry of
        None \<Rightarrow> None
      | Some ((events, t', exn), left) \<Rightarrow>
          (case exn of
             Some e \<Rightarrow> Some ((trace @ events, t', Some e), left)
           | None \<Rightarrow> handleWriteQueue queue left io_throws t' (trace @ events)))"

text \<open>The bytes that the \<open>send\<close> calls of a trace hand to the socket \<open>fd\<close>, in order.\<close>

fun delivered :: "Fd \<Rightarrow> event list \<Rightarrow> string" where
  "delivered fd [] = []"
| "delivered fd (send_bytes fd' bytes flags # es) =
     (if fd' = fd then bytes @ delivered fd es else delivered fd es)"
| "delivered fd (e # es) = delivered fd es"

subsection \<open>Timers\<close>

text \<open>
  \<open>std::chrono::duration_cast\<close> on the 64-bit count of a \<open>milliseconds\<close> value: to
  nanoseconds it multiplies by \<open>10^6\<close> in 64-bit signed arithmetic, to seconds it divides
  by 1000, truncating towards zero. \<open>int64_wrap\<close> is the two's complement value that a
  64-bit result holds.
\<close>

definition int64_wrap :: "int \<Rightarrow> int" where
  "int64_wrap x = (x + 2 ^ 63) mod 2 ^ 64 - 2 ^ 63"

definition to_nanoseconds :: "int \<Rightarrow> int" where
  "to_nanoseconds ms = int64_wrap (ms * 1000000)"

definition to_seconds :: "int \<Rightarrow> int" where
  "to_seconds ms = ms sdiv 1000"

text \<open>The \<open>itimerspec\<close> that \<open>armTimerMsImpl\<close> fills in for \<open>entry.value\<close>.\<close>

definition timer_spec :: "int \<Rightarrow> itimerspec" where
  "timer_spec count =
     \<lparr>it_interval = \<lparr>tv_sec = 0, tv_nsec = 0\<rparr>,
      it_value = (if count < 1000 then \<lparr>tv_sec = 0, tv_nsec = to_nanoseconds count\<rparr>
                  else \<lparr>tv_sec = to_seconds count, tv_nsec = 0\<rparr>)\<rparr>"

text \<open>\<open>armTimerMsImpl\<close>. \<open>settime_answer fd spec\<close> is what the kernel returns from
  \<open>timerfd_settime(fd, 0, &spec, 0)\<close>, with \<open>errno\<close> when it is \<open>-1\<close>.\<close>

definition armTimerMsImpl ::
  "(Fd \<Rightarrow> itimerspec \<Rightarrow> int \<times> errno) \<Rightarrow> (io_call \<Rightarrow> error option) \<Rightarrow> Transport \<Rightarrow>
   TimerEntry \<Rightarrow> outcome" where
  "armTimerMsImpl settime_answer io_throws t entry =
     (case timers t (timer_fd entry) of
        Some armed \<Rightarrow>
          ([reject (timer_reject entry) (RuntimeError ''Timer is already armed'')], t, None)
      | None \<Rightarrow>
          (let spec = timer_spec (timer_value entry);
               (res, e) = settime_answer (timer_fd entry) spec
           in if res = -1 then
                ([timerfd_settime (timer_fd entry) 0 spec,
                  reject (timer_reject entry) (SystemError ''Could not set timer time'' e)],
                 t, None)
              else
                (let call = registerFdOneShot (timer_fd entry) {Read} Edge in
                 case io_throws call of
                   Some exn \<Rightarrow>
                     ([timerfd_settime (timer_fd entry) 0 spec, io call], t, Some exn)
                 | None \<Rightarrow>
                     ([timerfd_settime (timer_fd entry) 0 spec, io call],
                      t\<lparr>timers := map_insert (timers t) (timer_fd entry) entry\<rparr>, None))))"



section \<open>Facts about fragments and URL splitting\<close>


lemma str_find_None: "str_find c s = None \<longleftrightarrow> c \<notin> set s"
  by (induction s) auto

lemma str_find_Some:
  "str_find c s = Some p \<Longrightarrow> p < length s \<and> s ! p = c \<and> c \<notin> set (take p s)"
proof (induction s arbitrary: p)
  case Nil
  then show ?case by simp
next
  case (Cons x xs)
  then show ?case by (auto split: if_splits)
qed

lemma str_find_last:
  assumes "str_find c s = Some p" and "p = length s - 1"
  shows "s = take p s @ [c]"
proof -
  from str_find_Some [OF assms(1)] have "p < length s" and "s ! p = c" by auto
  with assms(2) have "length s = Suc p" by simp
  then have "s = take p s @ [s ! p]"
    by (metis lessI take_Suc_conv_app_nth take_all order_refl)
  with \<open>s ! p = c\<close> show ?thesis by simp
qed

lemma checkInvariant_ok:
  "fl \<in> {{Fixed}, {Splat}, {Parameter}, {Optional, Parameter}} \<Longrightarrow>
   checkInvariant \<lparr>frag_flags = fl, frag_value = v\<rparr> = Inr \<lparr>frag_flags = fl, frag_value = v\<rparr>"
  by (auto simp: checkInvariant_def check_def hasFlag_def)

lemma char0_splat: "char0 v = CHR ''*'' \<Longrightarrow> \<not> 1 < length v \<Longrightarrow> v = ''*''"
  by (cases v) auto

lemma Fragment_new_cases:
  assumes "Fragment_new seg = Inr f"
  shows "seg \<noteq> [] \<and>
    ((frag_flags f = {Fixed} \<and> frag_value f = seg \<and> char0 seg \<noteq> CHR '':'' \<and> char0 seg \<noteq> CHR ''*''
        \<and> CHR ''?'' \<notin> set seg)
     \<or> (frag_flags f = {Splat} \<and> frag_value f = seg \<and> seg = ''*'')
     \<or> (frag_flags f = {Parameter} \<and> frag_value f = seg \<and> char0 seg = CHR '':''
        \<and> CHR ''?'' \<notin> set seg)
     \<or> (frag_flags f = {Optional, Parameter} \<and> seg = frag_value f @ ''?''
        \<and> char0 seg = CHR '':'' \<and> CHR ''?'' \<notin> set (frag_value f)))"
proof -
  from assms have ne: "seg \<noteq> []" and ini: "Fragment_init seg = Inr f"
    by (auto simp: Fragment_new_def split: if_splits)
  show ?thesis
  proof (cases "str_find CHR ''?'' seg")
    case None
    then have nq: "CHR ''?'' \<notin> set seg" by (simp add: str_find_None)
    from ini None have "f = \<lparr>frag_flags = frag_flags f, frag_value = seg\<rparr> \<and>
        ((frag_flags f = {Parameter} \<and> char0 seg = CHR '':'')
         \<or> (frag_flags f = {Splat} \<and> char0 seg = CHR ''*'' \<and> \<not> 1 < length seg)
         \<or> (frag_flags f = {Fixed} \<and> char0 seg \<noteq> CHR '':'' \<and> char0 seg \<noteq> CHR ''*''))"
      by (auto simp: Fragment_init_def init_kind_def setFlag_def checkInvariant_ok
               split: if_splits)
    then have "frag_value f = seg" and k: "(frag_flags f = {Parameter} \<and> char0 seg = CHR '':'')
         \<or> (frag_flags f = {Splat} \<and> char0 seg = CHR ''*'' \<and> \<not> 1 < length seg)
         \<or> (frag_flags f = {Fixed} \<and> char0 seg \<noteq> CHR '':'' \<and> char0 seg \<noteq> CHR ''*'')"
      by (metis Fragment.select_convs(2), blast)
    with ne nq show ?thesis using char0_splat by blast
  next
    case (Some pos)
    with ini have c: "char0 seg = CHR '':''" and p: "pos = length seg - 1"
      and f: "f = \<lparr>frag_flags = {Optional, Parameter}, frag_value = take pos seg\<rparr>"
      by (auto simp: Fragment_init_def init_kind_def setFlag_def checkInvariant_ok
               split: if_splits)
    from str_find_last [OF Some p] have "seg = take pos seg @ ''?''" .
    moreover from str_find_Some [OF Some] have "CHR ''?'' \<notin> set (take pos seg)" by simp
    ultimately show ?thesis using ne c f by simp
  qed
qed


lemma fromUrl_loop_Inr:
  "fromUrl_loop ps acc = Inr fs \<Longrightarrow>
   \<exists>gs. fs = acc @ gs \<and>
     list_all2 (\<lambda>p f. Fragment_new p = Inr f) (filter (\<lambda>p. p \<noteq> []) ps) gs"
proof (induction ps arbitrary: acc)
  case Nil
  then show ?case by simp
next
  case (Cons p ps)
  show ?case
  proof (cases "p = []")
    case True
    with Cons show ?thesis by simp
  next
    case False
    with Cons.prems obtain f where f: "Fragment_new p = Inr f"
      and rest: "fromUrl_loop ps (acc @ [f]) = Inr fs"
      by (auto split: sum.splits)
    from Cons.IH [OF rest] obtain gs where "fs = (acc @ [f]) @ gs"
      and "list_all2 (\<lambda>p f. Fragment_new p = Inr f) (filter (\<lambda>p. p \<noteq> []) ps) gs"
      by blast
    with f False show ?thesis by (intro exI [of _ "f # gs"]) simp
  qed
qed

lemma fromUrl_Inr:
  "fromUrl url = Inr fs \<Longrightarrow>
   list_all2 (\<lambda>p f. Fragment_new p = Inr f)
     (filter (\<lambda>p. p \<noteq> []) (getlines CHR ''/'' [] url)) fs"
  unfolding fromUrl_def by (drule fromUrl_loop_Inr) simp

lemma fromUrl_segment:
  assumes "fromUrl url = Inr fs" and "f \<in> set fs"
  shows "\<exists>seg \<in> set (getlines CHR ''/'' [] url). Fragment_new seg = Inr f"
proof -
  let ?segs = "filter (\<lambda>p. p \<noteq> []) (getlines CHR ''/'' [] url)"
  from fromUrl_Inr [OF assms(1)]
  have l: "list_all2 (\<lambda>p f. Fragment_new p = Inr f) ?segs fs" .
  from assms(2) obtain i where i: "i < length fs" and fi: "fs ! i = f"
    by (auto simp: in_set_conv_nth)
  from l i have "Fragment_new (?segs ! i) = Inr (fs ! i)" and "i < length ?segs"
    by (auto simp: list_all2_conv_all_nth)
  then have "?segs ! i \<in> set ?segs" by (metis nth_mem)
  then have "?segs ! i \<in> set (getlines CHR ''/'' [] url)" by simp
  with \<open>Fragment_new (?segs ! i) = Inr (fs ! i)\<close> fi show ?thesis by blast
qed

lemma Fragment_new_exclusive:
  "Fragment_new seg = Inr f \<Longrightarrow> \<not> (isParameter f \<and> isSplat f)"
  by (drule Fragment_new_cases) (auto simp: isParameter_def isSplat_def hasFlag_def)

lemma match_loop_True:
  "match_loop fs rs ps ss = (True, ps', ss') \<Longrightarrow>
   ps' = ps @ map (\<lambda>(f, r). TypedParam (frag_value f) (frag_value r))
                (filter (\<lambda>(f, r). isParameter f) (zip fs rs))
   \<and> ss' = ss @ map (\<lambda>(f, r). TypedParam (frag_value r) (frag_value r))
                (filter (\<lambda>(f, r). \<not> isParameter f \<and> isSplat f) (zip fs rs))
   \<and> (\<forall>f \<in> set (drop (length rs) fs). isOptional f)"
proof (induction fs rs ps ss rule: match_loop.induct)
  case (1 rs params splats)
  then show ?case by simp
next
  case (2 fragment fs params splats)
  then show ?case by (simp add: UNMATCH_def split: if_splits)
next
  case (3 fragment fs reqFragment rs params splats)
  then show ?case by (simp add: UNMATCH_def split: if_splits)
qed

lemma match_loop_short:
  "length fs = Suc (length rs) \<Longrightarrow>
   \<forall>i < length rs. Fragment_match (fs ! i) (rs ! i) \<Longrightarrow>
   fst (match_loop fs rs ps ss) = isOptional (last fs)"
proof (induction fs rs ps ss rule: match_loop.induct)
  case (1 rs params splats)
  then show ?case by simp
next
  case (2 fragment fs params splats)
  then show ?case by (simp add: UNMATCH_def)
next
  case (3 fragment fs reqFragment rs params splats)
  from "3.prems" have len: "length fs = Suc (length rs)" and ne: "fs \<noteq> []"
    and m0: "Fragment_match fragment reqFragment"
    and rest: "\<forall>i < length rs. Fragment_match (fs ! i) (rs ! i)"
    by auto
  with "3.IH" show ?case by simp
qed


text \<open>Unfolding these evaluates the router on a concrete URL.\<close>

lemmas router_defs =
  fromUrl_def Fragment_new_def Fragment_init_def init_kind_def setFlag_def
  checkInvariant_def check_def hasFlag_def isOptional_def isParameter_def isSplat_def
  Fragment_match_def Fragment_match_raw_def Route_match_def UNMATCH_def

section \<open>Theorems about the router\<close>

text \<open>
  Claim C3, as amended. The claim says that an Optional fragment is the last fragment of
  every accepted pattern and that a pattern with fragments after an Optional one is
  rejected. \<open>Fragment::init\<close> looks at one segment only, and \<open>Fragment::fromUrl\<close> makes no
  check across segments; the loop of \<open>Route::match\<close> skips every Optional fragment past
  the request's end with \<open>continue\<close>. What holds: in every pattern that \<open>fromUrl\<close>
  accepts, each fragment with the Optional flag is a Parameter fragment, compiled from a
  segment that starts with \<open>:\<close> and whose only \<open>?\<close> is its last character (the stored
  value is the segment without it). Its position in the pattern is not constrained.
\<close>

theorem fromUrl_optional_is_parameter:
  assumes "fromUrl url = Inr fragments"
      and "f \<in> set fragments"
      and "hasFlag (frag_flags f) Optional"
  shows "isParameter f \<and> isOptional f \<and>
         (\<exists>seg \<in> set (getlines CHR ''/'' [] url).
             seg = frag_value f @ ''?'' \<and> char0 seg = CHR '':'' \<and>
             CHR ''?'' \<notin> set (frag_value f))"
proof -
  from fromUrl_segment [OF assms(1,2)] obtain seg
    where seg: "seg \<in> set (getlines CHR ''/'' [] url)" and new: "Fragment_new seg = Inr f"
    by blast
  from Fragment_new_cases [OF new] assms(3)
  have "frag_flags f = {Optional, Parameter}" and "seg = frag_value f @ ''?''"
    and "char0 seg = CHR '':''" and "CHR ''?'' \<notin> set (frag_value f)"
    by (auto simp: hasFlag_def)
  with seg show ?thesis
    by (auto simp: isParameter_def isOptional_def hasFlag_def)
qed

theorem fromUrl_optional_is_parameter_witness:
  "fromUrl ''/a/:x?'' = Inr [fixed_frag ''a'', optional_frag '':x'']
   \<and> optional_frag '':x'' \<in> set [fixed_frag ''a'', optional_frag '':x'']
   \<and> hasFlag (frag_flags (optional_frag '':x'')) Optional
   \<and> isParameter (optional_frag '':x'')
   \<and> isOptional (optional_frag '':x'')
   \<and> '':x?'' \<in> set (getlines CHR ''/'' [] ''/a/:x?'')"
proof -
  have c: "fromUrl ''/a/:x?'' = Inr [fixed_frag ''a'', optional_frag '':x'']"
    by (simp add: router_defs)
  have m: "optional_frag '':x'' \<in> set [fixed_frag ''a'', optional_frag '':x'']"
    by simp
  have h: "hasFlag (frag_flags (optional_frag '':x'')) Optional"
    by (simp add: hasFlag_def)
  from fromUrl_optional_is_parameter [OF c m h] c m h show ?thesis by simp
qed

text \<open>
  The claim as stated fails: \<open>/:x?/b\<close> is accepted, and its Optional fragment is the
  first of two fragments.
\<close>

theorem fromUrl_optional_not_last_counterexample:
  "fromUrl ''/:x?/b'' = Inr [optional_frag '':x'', fixed_frag ''b'']
   \<and> isOptional (optional_frag '':x'')
   \<and> \<not> isOptional (last [optional_frag '':x'', fixed_frag ''b''])"
  by (simp add: router_defs)

text \<open>
  \<open>Route::match\<close> on a request URL that \<open>Fragment::fromUrl\<close> splits into
  \<open>reqFragments\<close>: if there are more of them than the pattern has fragments, there is no
  match; if the pattern has exactly one fragment more, and every request fragment matches
  the pattern fragment at its index, the match flag is \<open>isOptional\<close> of the last pattern
  fragment. The pattern's fragments are arbitrary.
\<close>

lemma Route_match_when_request_splits:
  assumes "fromUrl req = Inr reqFragments"
  shows "(length reqFragments > length fragments \<longrightarrow>
            Route_match fragments req = Inr (False, [], []))
       \<and> (length fragments = Suc (length reqFragments) \<and>
          (\<forall>i < length reqFragments. Fragment_match (fragments ! i) (reqFragments ! i)) \<longrightarrow>
            (\<exists>params splats.
               Route_match fragments req = Inr (isOptional (last fragments), params, splats)))"
proof (intro conjI impI)
  assume "length reqFragments > length fragments"
  with assms show "Route_match fragments req = Inr (False, [], [])"
    by (simp add: Route_match_def UNMATCH_def)
next
  assume a: "length fragments = Suc (length reqFragments) \<and>
          (\<forall>i < length reqFragments. Fragment_match (fragments ! i) (reqFragments ! i))"
  then have f: "fst (match_loop fragments reqFragments [] []) = isOptional (last fragments)"
    by (intro match_loop_short) auto
  obtain m params splats where r: "match_loop fragments reqFragments [] [] = (m, params, splats)"
    by (cases "match_loop fragments reqFragments [] []") auto
  from a assms
  have "Route_match fragments req = Inr (match_loop fragments reqFragments [] [])"
    by (simp add: Route_match_def)
  with f r show "\<exists>params splats.
       Route_match fragments req = Inr (isOptional (last fragments), params, splats)"
    by simp
qed




lemma Route_match_when_request_splits_example:
  "fromUrl ''/a/1'' = Inr [fixed_frag ''a'', fixed_frag ''1'']
   \<and> Fragment_match (fixed_frag ''a'') (fixed_frag ''a'')
   \<and> Fragment_match (param_frag '':x'') (fixed_frag ''1'')
   \<and> isOptional (optional_frag '':y'')
   \<and> Route_match [fixed_frag ''a'', param_frag '':x'', optional_frag '':y''] ''/a/1''
        = Inr (True, [TypedParam '':x'' ''1''], [])
   \<and> fromUrl ''/a'' = Inr [fixed_frag ''a'']
   \<and> \<not> isOptional (param_frag '':x'')
   \<and> Route_match [fixed_frag ''a'', param_frag '':x''] ''/a''
        = Inr (False, [], [])
   \<and> fromUrl ''/a/1/2/3'' =
        Inr [fixed_frag ''a'', fixed_frag ''1'', fixed_frag ''2'', fixed_frag ''3'']
   \<and> Route_match [fixed_frag ''a'', param_frag '':x'', optional_frag '':y''] ''/a/1/2/3''
        = Inr (False, [], [])"
proof -
  have c1: "fromUrl ''/a/1'' = Inr [fixed_frag ''a'', fixed_frag ''1'']"
    by (simp add: router_defs)
  have c2: "fromUrl ''/a/1/2/3'' =
        Inr [fixed_frag ''a'', fixed_frag ''1'', fixed_frag ''2'', fixed_frag ''3'']"
    by (simp add: router_defs)
  have c3: "fromUrl ''/a'' = Inr [fixed_frag ''a'']"
    by (simp add: router_defs)
  have m: "\<forall>i < length [fixed_frag ''a'', fixed_frag ''1''].
         Fragment_match ([fixed_frag ''a'', param_frag '':x'', optional_frag '':y''] ! i)
                        ([fixed_frag ''a'', fixed_frag ''1''] ! i)"
    by (simp add: router_defs All_less_Suc2)
  have r1: "Route_match [fixed_frag ''a'', param_frag '':x'', optional_frag '':y''] ''/a/1''
        = Inr (True, [TypedParam '':x'' ''1''], [])"
    using Route_match_when_request_splits
      [OF c1, of "[fixed_frag ''a'', param_frag '':x'', optional_frag '':y'']"] m
    by (simp add: router_defs)
  have r2: "Route_match [fixed_frag ''a'', param_frag '':x''] ''/a'' = Inr (False, [], [])"
    using Route_match_when_request_splits [OF c3, of "[fixed_frag ''a'', param_frag '':x'']"]
    by (simp add: router_defs)
  have r3: "Route_match [fixed_frag ''a'', param_frag '':x'', optional_frag '':y''] ''/a/1/2/3''
        = Inr (False, [], [])"
    using Route_match_when_request_splits
      [OF c2, of "[fixed_frag ''a'', param_frag '':x'', optional_frag '':y'']"]
    by simp
  have m': "Fragment_match (fixed_frag ''a'') (fixed_frag ''a'')
      \<and> Fragment_match (param_frag '':x'') (fixed_frag ''1'')
      \<and> isOptional (optional_frag '':y'') \<and> \<not> isOptional (param_frag '':x'')"
    by (simp add: router_defs)
  from c1 c2 c3 m' r1 r2 r3 show ?thesis by blast
qed

text \<open>
  Claim C4. The claim is about every request URL: with one segment fewer than the
  pattern and every present segment matching, the match succeeds if and only if the last
  pattern fragment is Optional. \<open>Route::match\<close> splits the request with
  \<open>Fragment::fromUrl\<close>, the compiler of patterns, whose constructor throws on a segment
  that starts with \<open>*\<close> and is longer. The pattern \<open>/a/:x/:y?\<close> has three fragments, the
  last one Optional; the URL \<open>/a/*b\<close> has the two segments \<open>a\<close> and \<open>*b\<close>, which the
  Fixed fragment \<open>a\<close> and the Parameter fragment \<open>:x\<close> match; the claim says that the
  match succeeds, and \<open>Route::match\<close> ends with the exception "Invalid splat parameter".
\<close>

theorem Route_match_throws_on_request_path:
  "fromUrl ''/a/:x/:y?'' = Inr [fixed_frag ''a'', param_frag '':x'', optional_frag '':y'']
   \<and> filter (\<lambda>p. p \<noteq> []) (getlines CHR ''/'' [] ''/a/*b'') = [''a'', ''*b'']
   \<and> Fragment_match_raw (fixed_frag ''a'') ''a''
   \<and> Fragment_match_raw (param_frag '':x'') ''*b''
   \<and> isOptional (optional_frag '':y'')
   \<and> Route_match [fixed_frag ''a'', param_frag '':x'', optional_frag '':y''] ''/a/*b''
       = Inl (RuntimeError ''Invalid splat parameter'')"
  by (simp add: router_defs)

lemma length_filter_zip_fst:
  assumes "length rs \<le> length fs"
  shows "length (filter (\<lambda>(f, r). P f) (zip fs rs)) = length (filter P (take (length rs) fs))"
proof -
  have "map fst (filter (\<lambda>(f, r). P f) (zip fs rs)) = filter P (map fst (zip fs rs))"
    by (simp add: filter_map comp_def case_prod_unfold)
  also from assms have "map fst (zip fs rs) = take (length rs) fs"
    by (simp add: map_fst_zip_take min_def)
  finally show ?thesis by (metis length_map)
qed

lemma fromUrl_exclusive:
  assumes "fromUrl url = Inr fs" and "f \<in> set fs"
  shows "\<not> (isParameter f \<and> isSplat f)"
  using fromUrl_segment [OF assms] Fragment_new_exclusive by blast

lemma Route_match_True:
  assumes "Route_match fragments req = Inr (True, params, splats)"
  shows "\<exists>reqFragments. fromUrl req = Inr reqFragments
     \<and> length reqFragments \<le> length fragments
     \<and> match_loop fragments reqFragments [] [] = (True, params, splats)"
  using assms by (auto simp: Route_match_def UNMATCH_def split: sum.splits if_splits)

text \<open>
  Claim C5. For a compiled route (its fragments come from \<open>fromUrl\<close>) and a successful
  \<open>Route::match\<close>: with \<open>reqFragments\<close> the fragments of the request, \<open>params\<close> has one
  entry per Parameter fragment among the pattern positions that have a request fragment
  (the name is the pattern fragment's value, the value the request fragment's), \<open>splats\<close>
  has one entry per Splat fragment of the pattern, and each splat entry holds the request
  fragment's value both as name and as value.
\<close>

theorem Route_match_captures:
  assumes "fromUrl pattern = Inr fragments"
      and "Route_match fragments req = Inr (True, params, splats)"
  shows "\<exists>reqFragments. fromUrl req = Inr reqFragments
     \<and> length reqFragments \<le> length fragments
     \<and> params = map (\<lambda>(f, r). TypedParam (frag_value f) (frag_value r))
                    (filter (\<lambda>(f, r). isParameter f) (zip fragments reqFragments))
     \<and> length params = length (filter isParameter (take (length reqFragments) fragments))
     \<and> splats = map (\<lambda>(f, r). TypedParam (frag_value r) (frag_value r))
                    (filter (\<lambda>(f, r). isSplat f) (zip fragments reqFragments))
     \<and> length splats = length (filter isSplat fragments)"
proof -
  from Route_match_True [OF assms(2)] obtain reqFragments
    where split: "fromUrl req = Inr reqFragments"
      and len: "length reqFragments \<le> length fragments"
      and loop: "match_loop fragments reqFragments [] [] = (True, params, splats)"
    by blast
  let ?z = "zip fragments reqFragments"
  from match_loop_True [OF loop]
  have ps: "params = map (\<lambda>(f, r). TypedParam (frag_value f) (frag_value r))
                    (filter (\<lambda>(f, r). isParameter f) ?z)"
    and ss0: "splats = map (\<lambda>(f, r). TypedParam (frag_value r) (frag_value r))
                    (filter (\<lambda>(f, r). \<not> isParameter f \<and> isSplat f) ?z)"
    and opt: "\<forall>f \<in> set (drop (length reqFragments) fragments). isOptional f"
    by simp_all
  have excl: "\<not> (isParameter f \<and> isSplat f)" if "f \<in> set fragments" for f
    using fromUrl_exclusive [OF assms(1) that] .
  have "filter (\<lambda>(f, r). \<not> isParameter f \<and> isSplat f) ?z = filter (\<lambda>(f, r). isSplat f) ?z"
    by (rule filter_cong) (auto dest: set_zip_leftD excl)
  with ss0 have ss: "splats = map (\<lambda>(f, r). TypedParam (frag_value r) (frag_value r))
                    (filter (\<lambda>(f, r). isSplat f) ?z)"
    by simp
  from ps have lp: "length params =
      length (filter isParameter (take (length reqFragments) fragments))"
    by (simp add: length_filter_zip_fst [OF len])
  have "filter isSplat (drop (length reqFragments) fragments) = []"
  proof -
    have "\<not> isSplat f" if "f \<in> set (drop (length reqFragments) fragments)" for f
    proof -
      from that opt have "isParameter f" by (auto simp: isOptional_def)
      moreover from that have "f \<in> set fragments" by (rule in_set_dropD)
      ultimately show ?thesis using excl by blast
    qed
    then show ?thesis by (simp add: filter_empty_conv)
  qed
  then have "filter isSplat fragments = filter isSplat (take (length reqFragments) fragments)"
    by (metis append_Nil2 append_take_drop_id filter_append)
  with ss have ls: "length splats = length (filter isSplat fragments)"
    by (simp add: length_filter_zip_fst [OF len])
  from split len ps lp ss ls show ?thesis by blast
qed

theorem Route_match_captures_witness:
  "fromUrl ''/a/:x/*/:y?'' =
      Inr [fixed_frag ''a'', param_frag '':x'', splat_frag ''*'', optional_frag '':y'']
   \<and> Route_match [fixed_frag ''a'', param_frag '':x'', splat_frag ''*'', optional_frag '':y'']
        ''/a/1/rest'' = Inr (True, [TypedParam '':x'' ''1''], [TypedParam ''rest'' ''rest''])
   \<and> fromUrl ''/a/1/rest'' = Inr [fixed_frag ''a'', fixed_frag ''1'', fixed_frag ''rest'']
   \<and> length [TypedParam '':x'' ''1''] =
       length (filter isParameter (take 3
         [fixed_frag ''a'', param_frag '':x'', splat_frag ''*'', optional_frag '':y'']))
   \<and> length [TypedParam ''rest'' ''rest''] =
       length (filter isSplat
         [fixed_frag ''a'', param_frag '':x'', splat_frag ''*'', optional_frag '':y''])"
proof -
  have c: "fromUrl ''/a/:x/*/:y?'' =
      Inr [fixed_frag ''a'', param_frag '':x'', splat_frag ''*'', optional_frag '':y'']"
    by (simp add: router_defs)
  have m: "Route_match [fixed_frag ''a'', param_frag '':x'', splat_frag ''*'', optional_frag '':y'']
        ''/a/1/rest'' = Inr (True, [TypedParam '':x'' ''1''], [TypedParam ''rest'' ''rest''])"
    by (simp add: router_defs)
  have r: "fromUrl ''/a/1/rest'' = Inr [fixed_frag ''a'', fixed_frag ''1'', fixed_frag ''rest'']"
    by (simp add: router_defs)
  from Route_match_captures [OF c m] obtain reqFragments
    where s: "fromUrl ''/a/1/rest'' = Inr reqFragments"
      and lp: "length [TypedParam '':x'' ''1''] =
          length (filter isParameter (take (length reqFragments)
            [fixed_frag ''a'', param_frag '':x'', splat_frag ''*'', optional_frag '':y'']))"
      and ls: "length [TypedParam ''rest'' ''rest''] =
          length (filter isSplat
            [fixed_frag ''a'', param_frag '':x'', splat_frag ''*'', optional_frag '':y''])"
    by blast
  from s r have "reqFragments = [fixed_frag ''a'', fixed_frag ''1'', fixed_frag ''rest'']"
    by simp
  then have len3: "length reqFragments = 3" by simp
  note lp' = lp [unfolded len3]
  show ?thesis by (rule conjI [OF c conjI [OF m conjI [OF r conjI [OF lp' ls]]]])
qed

lemma Fragment_new_parameter_value:
  assumes "Fragment_new seg = Inr f" and "isParameter f"
  shows "char0 (frag_value f) = CHR '':'' \<and> CHR ''?'' \<notin> set (frag_value f)
       \<and> (if CHR ''?'' \<in> set seg then seg = frag_value f @ ''?'' else seg = frag_value f)"
proof -
  from Fragment_new_cases [OF assms(1)] assms(2)
  consider "frag_value f = seg" "char0 seg = CHR '':''" "CHR ''?'' \<notin> set seg"
    | "seg = frag_value f @ ''?''" "char0 seg = CHR '':''" "CHR ''?'' \<notin> set (frag_value f)"
    by (auto simp: isParameter_def hasFlag_def)
  then show ?thesis
  proof cases
    case 1
    then show ?thesis by simp
  next
    case 2
    then have "frag_value f \<noteq> []" by auto
    with 2 have "char0 (frag_value f) = CHR '':''" by (cases "frag_value f") auto
    with 2 show ?thesis by simp
  qed
qed

lemma map_fst_filter_zip:
  assumes "length rs \<le> length fs"
  shows "map fst (filter (\<lambda>(f, r). P f) (zip fs rs)) = filter P (take (length rs) fs)"
proof -
  have "map fst (filter (\<lambda>(f, r). P f) (zip fs rs)) = filter P (map fst (zip fs rs))"
    by (simp add: filter_map comp_def case_prod_unfold)
  also from assms have "map fst (zip fs rs) = take (length rs) fs"
    by (simp add: map_fst_zip_take min_def)
  finally show ?thesis .
qed

lemma hasParam_iff:
  "hasParam (Request_new req ps ss) name \<longleftrightarrow> name \<in> tp_name ` set ps"
  by (auto simp: hasParam_def Request_new_def find_None_iff)

lemma param_not_stored:
  assumes "name \<notin> tp_name ` set ps"
  shows "param (Request_new req ps ss) name = Inl (RuntimeError ''Unknown parameter'')"
proof -
  from assms have "find (\<lambda>p. tp_name p = name) ps = None"
    by (auto simp: find_None_iff)
  then show ?thesis by (simp add: param_def Request_new_def)
qed

lemma find_first:
  "find P xs = Some x \<Longrightarrow> x \<in> set xs \<and> P x"
  by (auto simp: find_Some_iff)

text \<open>
  Claim C10. For a compiled route and a successful match of a request:
  the stored parameter names are, in order, the values of the Parameter fragments at the
  pattern positions that have a request fragment; the value of a Parameter fragment
  starts with \<open>:\<close>, holds no \<open>?\<close>, and is its pattern segment, without the final \<open>?\<close>
  when the segment has one; so every stored name starts with \<open>:\<close> and holds no \<open>?\<close>.
  \<open>hasParam\<close> is true exactly on the stored names; \<open>param\<close> returns an entry of that name
  for a stored name and throws "Unknown parameter" for every other name; in particular,
  called with a name that does not start with \<open>:\<close> (the bare identifier), \<open>hasParam\<close> is
  false and \<open>param\<close> throws.
\<close>

theorem param_name_keeps_colon:
  assumes "fromUrl pattern = Inr fragments"
      and "Route_match fragments (resource req) = Inr (True, params, splats)"
  shows "(\<exists>reqFragments. fromUrl (resource req) = Inr reqFragments
            \<and> map tp_name params
                = map frag_value (filter isParameter (take (length reqFragments) fragments)))
       \<and> (\<forall>f \<in> set fragments. isParameter f \<longrightarrow>
            char0 (frag_value f) = CHR '':'' \<and> CHR ''?'' \<notin> set (frag_value f)
          \<and> (\<exists>seg \<in> set (getlines CHR ''/'' [] pattern). Fragment_new seg = Inr f
                \<and> (if CHR ''?'' \<in> set seg then seg = frag_value f @ ''?''
                    else seg = frag_value f)))
       \<and> (\<forall>p \<in> set params. char0 (tp_name p) = CHR '':'' \<and> CHR ''?'' \<notin> set (tp_name p))
       \<and> (\<forall>name. hasParam (Request_new req params splats) name
                    \<longleftrightarrow> name \<in> tp_name ` set params)
       \<and> (\<forall>name. name \<in> tp_name ` set params \<longrightarrow>
            (\<exists>q \<in> set params. tp_name q = name
                \<and> param (Request_new req params splats) name = Inr q))
       \<and> (\<forall>name. name \<notin> tp_name ` set params \<longrightarrow>
            param (Request_new req params splats) name
              = Inl (RuntimeError ''Unknown parameter''))
       \<and> (\<forall>name. char0 name \<noteq> CHR '':'' \<longrightarrow>
            \<not> hasParam (Request_new req params splats) name
          \<and> param (Request_new req params splats) name
              = Inl (RuntimeError ''Unknown parameter''))"
proof -
  from Route_match_True [OF assms(2)] obtain reqFragments
    where split: "fromUrl (resource req) = Inr reqFragments"
      and len: "length reqFragments \<le> length fragments"
      and loop: "match_loop fragments reqFragments [] [] = (True, params, splats)"
    by blast
  from match_loop_True [OF loop]
  have ps: "params = map (\<lambda>(f, r). TypedParam (frag_value f) (frag_value r))
                    (filter (\<lambda>(f, r). isParameter f) (zip fragments reqFragments))"
    by simp
  have "map tp_name params
      = map frag_value (map fst (filter (\<lambda>(f, r). isParameter f) (zip fragments reqFragments)))"
    unfolding ps by (simp add: comp_def case_prod_unfold)
  then have names: "map tp_name params
      = map frag_value (filter isParameter (take (length reqFragments) fragments))"
    by (simp only: map_fst_filter_zip [OF len])
  have frag: "char0 (frag_value f) = CHR '':'' \<and> CHR ''?'' \<notin> set (frag_value f)
          \<and> (\<exists>seg \<in> set (getlines CHR ''/'' [] pattern). Fragment_new seg = Inr f
                \<and> (if CHR ''?'' \<in> set seg then seg = frag_value f @ ''?''
                    else seg = frag_value f))"
    if "f \<in> set fragments" "isParameter f" for f
  proof -
    from fromUrl_segment [OF assms(1) that(1)] obtain seg
      where seg: "seg \<in> set (getlines CHR ''/'' [] pattern)" "Fragment_new seg = Inr f"
      by blast
    from Fragment_new_parameter_value [OF seg(2) that(2)] seg show ?thesis by blast
  qed
  have stored: "char0 (tp_name p) = CHR '':'' \<and> CHR ''?'' \<notin> set (tp_name p)"
    if "p \<in> set params" for p
  proof -
    from that have "tp_name p \<in> set (map tp_name params)" by simp
    then have "tp_name p
        \<in> frag_value ` set (filter isParameter (take (length reqFragments) fragments))"
      unfolding names by simp
    then obtain f where "f \<in> set (take (length reqFragments) fragments)" "isParameter f"
      and n: "tp_name p = frag_value f"
      by auto
    then have "f \<in> set fragments" by (auto dest: in_set_takeD)
    from frag [OF this \<open>isParameter f\<close>] n show ?thesis by simp
  qed
  have has: "hasParam (Request_new req params splats) name \<longleftrightarrow> name \<in> tp_name ` set params"
    for name
    by (rule hasParam_iff)
  have found: "\<exists>q \<in> set params. tp_name q = name
        \<and> param (Request_new req params splats) name = Inr q"
    if "name \<in> tp_name ` set params" for name
  proof -
    from that have "find (\<lambda>p. tp_name p = name) params \<noteq> None"
      by (auto simp: find_None_iff)
    then obtain q where q: "find (\<lambda>p. tp_name p = name) params = Some q" by auto
    from find_first [OF q] q show ?thesis
      by (auto simp: param_def Request_new_def)
  qed
  have unknown: "param (Request_new req params splats) name
      = Inl (RuntimeError ''Unknown parameter'')"
    if "name \<notin> tp_name ` set params" for name
    using that by (rule param_not_stored)
  have bare: "\<not> hasParam (Request_new req params splats) name
          \<and> param (Request_new req params splats) name = Inl (RuntimeError ''Unknown parameter'')"
    if "char0 name \<noteq> CHR '':''" for name
  proof -
    from that stored have "name \<notin> tp_name ` set params" by auto
    with has unknown show ?thesis by blast
  qed
  from split names have first: "\<exists>reqFragments. fromUrl (resource req) = Inr reqFragments
            \<and> map tp_name params
                = map frag_value (filter isParameter (take (length reqFragments) fragments))"
    by blast
  show ?thesis
    using first frag stored has found unknown bare by (intro conjI allI ballI impI) blast+
qed


theorem param_name_keeps_colon_witness:
  "fromUrl ''/record/:name/:value?''
     = Inr [fixed_frag ''record'', param_frag '':name'', optional_frag '':value'']
   \<and> Route_match [fixed_frag ''record'', param_frag '':name'', optional_frag '':value'']
        (resource \<lparr>http_method = Post, resource = ''/record/hits/5''\<rparr>)
        = Inr (True, [TypedParam '':name'' ''hits'', TypedParam '':value'' ''5''], [])
   \<and> '':value?'' \<in> set (getlines CHR ''/'' [] ''/record/:name/:value?'')
   \<and> hasParam (Request_new \<lparr>http_method = Post, resource = ''/record/hits/5''\<rparr>
                 [TypedParam '':name'' ''hits'', TypedParam '':value'' ''5''] []) '':value''
   \<and> param (Request_new \<lparr>http_method = Post, resource = ''/record/hits/5''\<rparr>
                 [TypedParam '':name'' ''hits'', TypedParam '':value'' ''5''] []) '':value''
        = Inr (TypedParam '':value'' ''5'')
   \<and> \<not> hasParam (Request_new \<lparr>http_method = Post, resource = ''/record/hits/5''\<rparr>
                 [TypedParam '':name'' ''hits'', TypedParam '':value'' ''5''] []) '':value?''
   \<and> \<not> hasParam (Request_new \<lparr>http_method = Post, resource = ''/record/hits/5''\<rparr>
                 [TypedParam '':name'' ''hits'', TypedParam '':value'' ''5''] []) '':bogus''
   \<and> \<not> hasParam (Request_new \<lparr>http_method = Post, resource = ''/record/hits/5''\<rparr>
                 [TypedParam '':name'' ''hits'', TypedParam '':value'' ''5''] []) ''value''
   \<and> param (Request_new \<lparr>http_method = Post, resource = ''/record/hits/5''\<rparr>
                 [TypedParam '':name'' ''hits'', TypedParam '':value'' ''5''] []) ''value''
        = Inl (RuntimeError ''Unknown parameter'')"
proof -
  let ?req = "\<lparr>http_method = Post, resource = ''/record/hits/5''\<rparr>"
  let ?ps = "[TypedParam '':name'' ''hits'', TypedParam '':value'' ''5'']"
  let ?R = "Request_new ?req ?ps []"
  have c: "fromUrl ''/record/:name/:value?''
     = Inr [fixed_frag ''record'', param_frag '':name'', optional_frag '':value'']"
    by (simp add: router_defs)
  have m: "Route_match [fixed_frag ''record'', param_frag '':name'', optional_frag '':value'']
        (resource ?req) = Inr (True, ?ps, [])"
    by (simp add: router_defs)
  have g: "'':value?'' \<in> set (getlines CHR ''/'' [] ''/record/:name/:value?'')"
    by simp
  note t = param_name_keeps_colon [OF c m]
  from t have has: "\<And>name. hasParam ?R name \<longleftrightarrow> name \<in> tp_name ` set ?ps"
    by blast
  from t have bare: "\<And>name. char0 name \<noteq> CHR '':'' \<Longrightarrow>
      \<not> hasParam ?R name \<and> param ?R name = Inl (RuntimeError ''Unknown parameter'')"
    by blast
  have h1: "hasParam ?R '':value''" by (simp add: has)
  have h2: "\<not> hasParam ?R '':value?''" by (simp add: has)
  have h3: "\<not> hasParam ?R '':bogus''" by (simp add: has)
  from bare [of "''value''"]
  have h4: "\<not> hasParam ?R ''value''"
    and p2: "param ?R ''value'' = Inl (RuntimeError ''Unknown parameter'')"
    by simp_all
  have p1: "param ?R '':value'' = Inr (TypedParam '':value'' ''5'')"
    by (simp add: param_def Request_new_def)
  show ?thesis
    by (rule conjI [OF c conjI [OF m conjI [OF g conjI [OF h1 conjI [OF p1
          conjI [OF h2 conjI [OF h3 conjI [OF h4 p2]]]]]]]])
qed

lemma Route_match_split:
  assumes "fromUrl req = Inr reqFragments"
  shows "Route_match fragments req =
     Inr (if length reqFragments > length fragments then UNMATCH
          else match_loop fragments reqFragments [] [])"
  using assms by (simp add: Route_match_def)

lemma onRequest_loop_find:
  assumes "fromUrl (resource req) = Inr reqFragments"
  shows "onRequest_loop r req =
     (case find (\<lambda>route. route_matches route req) r of
        None \<Rightarrow> Inr (send Not_Found ''Could not find a matching route'')
      | Some route \<Rightarrow>
          (let (match, params, splats) = match_loop (route_fragments route) reqFragments [] []
           in Inr (invokeHandler (route_handler route) (Request_new req params splats))))"
proof (induction r)
  case Nil
  then show ?case by simp
next
  case (Cons route r)
  note s = Route_match_split [OF assms, of "route_fragments route"]
  show ?case
  proof (cases "route_matches route req")
    case True
    with s have "\<not> length reqFragments > length (route_fragments route)"
      by (auto simp: route_matches_def UNMATCH_def)
    with s True show ?thesis
      by (auto simp: route_matches_def split: prod.splits)
  next
    case False
    with s Cons.IH show ?thesis
      by (auto simp: route_matches_def UNMATCH_def split: prod.splits if_splits)
  qed
qed

text \<open>
  \<open>onRequest\<close> on a request whose resource \<open>Fragment::fromUrl\<close> splits: it reads only the
  routes of the request's method, in list order, and hands the request, with the captures
  of \<open>Route::match\<close>, to the handler of the first route that matches; when none matches it
  sends 404 with the body "Could not find a matching route". The list order is the order
  of registration: \<open>addRoute\<close> appends the new route to the list of its method and leaves
  the lists of the other methods as they are. When the method has no route at all, the
  404 is sent whatever the resource is.
\<close>

lemma onRequest_no_routes:
  "routes (http_method req) = [] \<Longrightarrow>
   onRequest routes req = Inr (send Not_Found ''Could not find a matching route'')"
  by (simp add: onRequest_def)

lemma onRequest_when_request_splits:
  assumes "fromUrl (resource req) = Inr reqFragments"
  shows "onRequest routes req =
     (case find (\<lambda>route. route_matches route req) (routes (http_method req)) of
        None \<Rightarrow> Inr (send Not_Found ''Could not find a matching route'')
      | Some route \<Rightarrow>
          (let (match, params, splats) = match_loop (route_fragments route) reqFragments [] []
           in Inr (invokeHandler (route_handler route) (Request_new req params splats))))
     \<and> (\<forall>m res h routes'. addRoute routes m res h = Inr routes' \<longrightarrow>
          (\<exists>route. Route_new res m h = Inr route \<and> route_handler route = h
             \<and> routes' m = routes m @ [route]
             \<and> (\<forall>m'. m' \<noteq> m \<longrightarrow> routes' m' = routes m')))"
proof
  show "onRequest routes req =
     (case find (\<lambda>route. route_matches route req) (routes (http_method req)) of
        None \<Rightarrow> Inr (send Not_Found ''Could not find a matching route'')
      | Some route \<Rightarrow>
          (let (match, params, splats) = match_loop (route_fragments route) reqFragments [] []
           in Inr (invokeHandler (route_handler route) (Request_new req params splats))))"
    unfolding onRequest_def by (rule onRequest_loop_find [OF assms])
next
  show "\<forall>m res h routes'. addRoute routes m res h = Inr routes' \<longrightarrow>
          (\<exists>route. Route_new res m h = Inr route \<and> route_handler route = h
             \<and> routes' m = routes m @ [route]
             \<and> (\<forall>m'. m' \<noteq> m \<longrightarrow> routes' m' = routes m'))"
    by (auto simp: addRoute_def Route_new_def split: sum.splits)
qed

text \<open>The table \<open>example_routes\<close> is what the two registrations build.\<close>

lemma example_routes_registered:
  "addRoute (\<lambda>m. []) Get ''/value/:name'' (1::nat)
     = Inr ((\<lambda>m. [])(Get :=
         [\<lparr>route_resource = ''/value/:name'', route_method = Get, route_handler = 1,
           route_fragments = [fixed_frag ''value'', param_frag '':name'']\<rparr>]))"
  "addRoute ((\<lambda>m. [])(Get :=
         [\<lparr>route_resource = ''/value/:name'', route_method = Get, route_handler = 1,
           route_fragments = [fixed_frag ''value'', param_frag '':name'']\<rparr>]))
       Get ''/:kind/*'' (2::nat)
     = Inr example_routes"
  by (simp_all add: addRoute_def Route_new_def router_defs example_routes_def)

lemma onRequest_when_request_splits_example:
  "fromUrl ''/value/hits'' = Inr [fixed_frag ''value'', fixed_frag ''hits'']
   \<and> onRequest example_routes \<lparr>http_method = Get, resource = ''/value/hits''\<rparr>
       = Inr (invokeHandler 1
           (Request_new \<lparr>http_method = Get, resource = ''/value/hits''\<rparr>
              [TypedParam '':name'' ''hits''] []))
   \<and> fromUrl ''/x'' = Inr [fixed_frag ''x'']
   \<and> onRequest example_routes \<lparr>http_method = Get, resource = ''/x''\<rparr>
       = Inr (send Not_Found ''Could not find a matching route'')
   \<and> onRequest example_routes \<lparr>http_method = Post, resource = ''/value/hits''\<rparr>
       = Inr (send Not_Found ''Could not find a matching route'')
   \<and> addRoute example_routes Post ''/ready'' 3
       = Inr (example_routes(Post :=
           [\<lparr>route_resource = ''/ready'', route_method = Post, route_handler = 3,
             route_fragments = [fixed_frag ''ready'']\<rparr>]))"
proof -
  have c1: "fromUrl (resource \<lparr>http_method = Get, resource = ''/value/hits''\<rparr>)
      = Inr [fixed_frag ''value'', fixed_frag ''hits'']"
    by (simp add: router_defs)
  have c2: "fromUrl (resource \<lparr>http_method = Get, resource = ''/x''\<rparr>) = Inr [fixed_frag ''x'']"
    by (simp add: router_defs)
  have c3: "fromUrl (resource \<lparr>http_method = Post, resource = ''/value/hits''\<rparr>)
      = Inr [fixed_frag ''value'', fixed_frag ''hits'']"
    by (simp add: router_defs)
  have r1: "onRequest example_routes \<lparr>http_method = Get, resource = ''/value/hits''\<rparr>
       = Inr (invokeHandler 1
           (Request_new \<lparr>http_method = Get, resource = ''/value/hits''\<rparr>
              [TypedParam '':name'' ''hits''] []))"
    using onRequest_when_request_splits [OF c1, of example_routes]
    by (simp add: example_routes_def route_matches_def router_defs)
  have r2: "onRequest example_routes \<lparr>http_method = Get, resource = ''/x''\<rparr>
       = Inr (send Not_Found ''Could not find a matching route'')"
    using onRequest_when_request_splits [OF c2, of example_routes]
    by (simp add: example_routes_def route_matches_def router_defs)
  have r3: "onRequest example_routes \<lparr>http_method = Post, resource = ''/value/hits''\<rparr>
       = Inr (send Not_Found ''Could not find a matching route'')"
    using onRequest_when_request_splits [OF c3, of example_routes]
    by (simp add: example_routes_def)
  have a: "addRoute example_routes Post ''/ready'' 3
       = Inr (example_routes(Post :=
           [\<lparr>route_resource = ''/ready'', route_method = Post, route_handler = 3,
             route_fragments = [fixed_frag ''ready'']\<rparr>]))"
    by (simp add: addRoute_def Route_new_def router_defs example_routes_def)
  from c1 c2 have c1': "fromUrl ''/value/hits'' = Inr [fixed_frag ''value'', fixed_frag ''hits'']"
    and c2': "fromUrl ''/x'' = Inr [fixed_frag ''x'']"
    by simp_all
  show ?thesis
    by (rule conjI [OF c1' conjI [OF r1 conjI [OF c2' conjI [OF r2 conjI [OF r3 a]]]]])
qed

text \<open>
  Claim C6. The claim is that a request with no matching route of its method is answered
  with 404 and the body "Could not find a matching route". \<open>onRequest\<close> writes that
  fallback after its loop, and reaches it when the method has no route: POST \<open>/*b\<close> on
  \<open>example_routes\<close> gets the 404. With routes to test, \<open>Route::match\<close> splits the request
  path with the compiler of patterns, which throws on the segment \<open>*b\<close>: on GET \<open>/*b\<close> no
  route of the table matches, and \<open>onRequest\<close> ends with the exception "Invalid splat
  parameter" without sending anything.
\<close>

theorem onRequest_throws_instead_of_404:
  "list_all (\<lambda>route. \<not> route_matches route \<lparr>http_method = Get, resource = ''/*b''\<rparr>)
      (example_routes Get)
   \<and> onRequest example_routes \<lparr>http_method = Get, resource = ''/*b''\<rparr>
       = Inl (RuntimeError ''Invalid splat parameter'')
   \<and> onRequest example_routes \<lparr>http_method = Post, resource = ''/*b''\<rparr>
       = Inr (send Not_Found ''Could not find a matching route'')"
  by (simp add: onRequest_def example_routes_def route_matches_def router_defs)

section \<open>Facts about the transport\<close>

lemma handleIncoming_loop_error:
  assumes "recv_answer i = RecvError e"
  shows "snd (handleIncoming_loop MaxBuffer recv_answer t peer i buffer) = buffer"
  by (subst handleIncoming_loop.simps) (simp add: assms Let_def)

lemma handleIncoming_loop_closed:
  assumes "recv_answer i = Received data" and "take (MaxBuffer - length buffer) data = []"
  shows "snd (handleIncoming_loop MaxBuffer recv_answer t peer i buffer) = buffer"
  by (subst handleIncoming_loop.simps)
     (simp only: assms Let_def recv_result.case if_True simp_thms snd_conv)

lemma handleIncoming_loop_long:
  assumes "recv_answer i = Received data" and "take (MaxBuffer - length buffer) data = bytes"
      and "bytes \<noteq> []" and "MaxBuffer \<le> length (buffer @ bytes)"
  shows "handleIncoming_loop MaxBuffer recv_answer t peer i buffer
       = (([cerr ''Too long packet''], t, None), buffer @ bytes)"
  by (subst handleIncoming_loop.simps)
     (simp only: assms Let_def recv_result.case if_True if_False)

lemma handleIncoming_loop_again:
  assumes "recv_answer i = Received data" and "take (MaxBuffer - length buffer) data = bytes"
      and "bytes \<noteq> []" and "\<not> MaxBuffer \<le> length (buffer @ bytes)"
  shows "handleIncoming_loop MaxBuffer recv_answer t peer i buffer
       = handleIncoming_loop MaxBuffer recv_answer t peer (Suc i) (buffer @ bytes)"
  by (subst handleIncoming_loop.simps)
     (simp only: assms Let_def recv_result.case if_True if_False)

lemma handleIncoming_loop_full:
  "length buffer < MaxBuffer \<Longrightarrow>
   handleIncoming_loop MaxBuffer recv_answer t peer i buffer = ((events, t', exn), final) \<Longrightarrow>
   MaxBuffer \<le> length final \<Longrightarrow>
   events = [cerr ''Too long packet''] \<and> t' = t \<and> exn = None"
proof (induction MaxBuffer recv_answer t peer i buffer rule: handleIncoming_loop.induct)
  case (1 MaxBuffer recv_answer t peer i buffer)
  show ?case
  proof (cases "recv_answer i")
    case (RecvError e)
    then have "snd (handleIncoming_loop MaxBuffer recv_answer t peer i buffer) = buffer"
      by (rule handleIncoming_loop_error)
    with "1.prems" show ?thesis by simp
  next
    case (Received data)
    let ?bytes = "take (MaxBuffer - length buffer) data"
    show ?thesis
    proof (cases "?bytes = []")
      case True
      with Received
      have "snd (handleIncoming_loop MaxBuffer recv_answer t peer i buffer) = buffer"
        by (rule handleIncoming_loop_closed)
      with "1.prems" show ?thesis by simp
    next
      case False
      show ?thesis
      proof (cases "MaxBuffer \<le> length (buffer @ ?bytes)")
        case True
        with Received False
        have "handleIncoming_loop MaxBuffer recv_answer t peer i buffer
            = (([cerr ''Too long packet''], t, None), buffer @ ?bytes)"
          by (intro handleIncoming_loop_long) auto
        with "1.prems"(2) show ?thesis by simp
      next
        case full: False
        with Received False
        have "handleIncoming_loop MaxBuffer recv_answer t peer i buffer
            = handleIncoming_loop MaxBuffer recv_answer t peer (Suc i) (buffer @ ?bytes)"
          by (intro handleIncoming_loop_again) auto
        with "1.prems"(2)
        have rec: "handleIncoming_loop MaxBuffer recv_answer t peer (Suc i) (buffer @ ?bytes)
            = ((events, t', exn), final)"
          by simp
        from full have lt: "length (buffer @ ?bytes) < MaxBuffer" by simp
        from "1.IH" [OF refl Received refl False full lt rec "1.prems"(3)]
        show ?thesis .
      qed
    qed
  qed
qed




section \<open>Theorems about the transport\<close>

text \<open>
  Claim C1. The claim is that the write path resolves once, with the full length of the
  payload, after every byte is sent. \<open>asyncWriteImpl\<close> compares \<open>totalWritten\<close> with
  \<open>len\<close>, which it recomputes in each iteration as what is left to send, so after a
  partial send the test no longer compares with the length of the payload. On a payload
  of 10 bytes, when \<open>send\<close> takes 4 bytes and then 2, the code resolves with 6 after
  handing 6 bytes to the socket.
\<close>

theorem asyncWriteImpl_resolves_early:
  "asyncWriteImpl [Written 4, Written 2] (\<lambda>call. None) Transport_new 7 0
      (Raw ''0123456789'' False) 1 2 FirstTry
     = Some (([send_bytes 7 ''0123'' 0, send_bytes 7 ''45'' 0, resolve 1 6],
              Transport_new, None), [])
   \<and> delivered 7 [send_bytes 7 ''0123'' 0, send_bytes 7 ''45'' 0, resolve 1 6] = ''012345''"
  by (simp add: asyncWriteImpl_def cleanUp_def)

text \<open>
  Claim C2. The claim is that a second pending write on a descriptor is a fatal error.
  \<open>asyncWriteImpl\<close> inserts without looking the descriptor up. Take a new Transport whose
  \<open>writesQueue\<close> holds two writes for descriptor 7, and a socket that answers EAGAIN to
  both: \<open>handleWriteQueue\<close> returns normally, the table holds the first write only, and
  the resolver 3 and the rejection 4 of the second write are never called; its bytes are
  stored nowhere.
\<close>

theorem handleWriteQueue_second_write_dropped:
  "handleWriteQueue
      [(7, \<lparr>write_resolve = 1, write_reject = 2, write_buffer = Raw ''abc'' False,
             write_flags = 0\<rparr>),
       (7, \<lparr>write_resolve = 3, write_reject = 4, write_buffer = Raw ''xyz'' False,
             write_flags = 0\<rparr>)]
      [SendError EAGAIN, SendError EAGAIN] (\<lambda>call. None) Transport_new []
     = Some (([io (modifyFd 7 {Read, Write} Edge), io (modifyFd 7 {Read, Write} Edge)],
              Transport_new\<lparr>toWrite :=
                [7 \<mapsto> \<lparr>write_resolve = 1, write_reject = 2, write_buffer = Raw ''abc'' False,
                       write_flags = 0\<rparr>]\<rparr>,
              None), [])"
  by (simp add: asyncWriteImpl_entry_def asyncWriteImpl_def map_insert_def Transport_new_def)



text \<open>
  Claim C8. When the timers table has an entry for the descriptor, \<open>armTimerMsImpl\<close> only
  calls the rejection with "Timer is already armed": the trace has no \<open>timerfd_settime\<close>
  and no call on the I/O service, and the tables are returned as they were.
\<close>

theorem armTimerMsImpl_already_armed:
  assumes "timers t (timer_fd entry) = Some armed"
  shows "armTimerMsImpl settime_answer io_throws t entry =
     ([reject (timer_reject entry) (RuntimeError ''Timer is already armed'')], t, None)"
  using assms by (simp add: armTimerMsImpl_def)

theorem armTimerMsImpl_already_armed_witness:
  "timers (Transport_new\<lparr>timers :=
       [9 \<mapsto> \<lparr>timer_fd = 9, timer_value = 250, timer_resolve = 1, timer_reject = 2,
              timer_active = True\<rparr>]\<rparr>)
     (timer_fd \<lparr>timer_fd = 9, timer_value = 40, timer_resolve = 3, timer_reject = 4,
               timer_active = True\<rparr>)
     = Some \<lparr>timer_fd = 9, timer_value = 250, timer_resolve = 1, timer_reject = 2,
             timer_active = True\<rparr>
   \<and> armTimerMsImpl (\<lambda>fd spec. (0, EAGAIN)) (\<lambda>call. None)
       (Transport_new\<lparr>timers :=
         [9 \<mapsto> \<lparr>timer_fd = 9, timer_value = 250, timer_resolve = 1, timer_reject = 2,
                timer_active = True\<rparr>]\<rparr>)
       \<lparr>timer_fd = 9, timer_value = 40, timer_resolve = 3, timer_reject = 4,
        timer_active = True\<rparr>
     = ([reject 4 (RuntimeError ''Timer is already armed'')],
        Transport_new\<lparr>timers :=
          [9 \<mapsto> \<lparr>timer_fd = 9, timer_value = 250, timer_resolve = 1, timer_reject = 2,
                 timer_active = True\<rparr>]\<rparr>,
        None)"
proof -
  let ?armed = "\<lparr>timer_fd = 9, timer_value = 250, timer_resolve = 1, timer_reject = 2,
                 timer_active = True\<rparr>"
  let ?entry = "\<lparr>timer_fd = 9, timer_value = 40, timer_resolve = 3, timer_reject = 4,
                 timer_active = True\<rparr>"
  have h: "timers (Transport_new\<lparr>timers := [9 \<mapsto> ?armed]\<rparr>) (timer_fd ?entry) = Some ?armed"
    by simp
  from armTimerMsImpl_already_armed [OF h, of "\<lambda>fd spec. (0, EAGAIN)" "\<lambda>call. None"] h
  show ?thesis by simp
qed

text \<open>
  Claim C9. \<open>MaxBuffer\<close> is positive (it is the size of an array). If the bytes
  accumulated in one turn of \<open>handleIncoming\<close> reach \<open>MaxBuffer\<close>, the turn consists of
  the diagnostic "Too long packet" alone: \<open>onInput\<close> is not called, no exception is
  thrown and the tables are unchanged, so the bytes read in the turn reach nobody.
\<close>

theorem handleIncoming_too_long:
  assumes "0 < MaxBuffer"
      and "handleIncoming MaxBuffer recv_answer t peer = ((events, t', exn), buffer)"
      and "MaxBuffer \<le> length buffer"
  shows "events = [cerr ''Too long packet''] \<and> t' = t \<and> exn = None
       \<and> (\<forall>b n p. onInput b n p \<notin> set events)"
proof -
  from assms(1) have "length ([] :: string) < MaxBuffer" by simp
  from handleIncoming_loop_full [OF this assms(2) [unfolded handleIncoming_def] assms(3)]
  show ?thesis by simp
qed

theorem handleIncoming_too_long_witness:
  "(0::nat) < 4
   \<and> handleIncoming 4 (\<lambda>i. Received ''abc'') Transport_new \<lparr>peer_fd = 5\<rparr>
       = (([cerr ''Too long packet''], Transport_new, None), ''abca'')
   \<and> 4 \<le> length ''abca''"
proof -
  have r: "handleIncoming 4 (\<lambda>i. Received ''abc'') Transport_new \<lparr>peer_fd = 5\<rparr>
       = (([cerr ''Too long packet''], Transport_new, None), ''abca'')"
    by (simp add: handleIncoming_def handleIncoming_loop.simps)
  have p: "(0::nat) < 4" and l: "4 \<le> length ''abca''" by simp_all
  from handleIncoming_too_long [OF p r l] p r l show ?thesis by simp
qed

end
